theory Spec2Isabelle
  imports
    Main
    "HOL-Library.AList"
    "HOL-Library.Char_ord"
    "HOL-Library.List_Lexorder"
    "HOL-Library.Sublist"
begin

section \<open>Ableton VST auditor: the scanning pipeline of \<open>ableton_vst_audit.py\<close>\<close>

text \<open>
  The class \<open>AbletonVSTAuditor\<close> is embedded function by function. Python's \<open>str\<close> is
  modelled by \<^typ>\<open>string\<close>, one \<^typ>\<open>char\<close> per code point, so the model covers text
  whose code points lie below 256 (Latin-1); on that range the string operations below
  agree with CPython's. Dictionaries, \<open>Counter\<close> included, are association lists in
  insertion order, updated with \<^const>\<open>AList.update\<close> (an existing key keeps its place,
  a new key goes to the end), since the report iterates over them. The auditor is used
  as the programmatic interface gives it, with no \<open>progress_callback\<close> set.
\<close>

subsection \<open>String operations of the Python library\<close>

definition lower_char :: "char \<Rightarrow> char" where
  "lower_char c =
     (let n = (of_char c :: nat)
      in if (65 \<le> n \<and> n \<le> 90) \<or> (192 \<le> n \<and> n \<le> 222 \<and> n \<noteq> 215)
         then char_of (n + 32) else c)"

definition py_lower :: "string \<Rightarrow> string" where
  "py_lower s = map lower_char s"

definition is_space :: "char \<Rightarrow> bool" where
  \<comment> \<open>\<open>str.isspace\<close> below code point 256\<close>
  "is_space c =
     (let n = (of_char c :: nat)
      in (9 \<le> n \<and> n \<le> 13) \<or> (28 \<le> n \<and> n \<le> 32) \<or> n = 133 \<or> n = 160)"

definition py_strip :: "string \<Rightarrow> string" where
  "py_strip s = rev (dropWhile is_space (rev (dropWhile is_space s)))"

text \<open>\<open>sub in s\<close> is \<^term>\<open>sublist sub s\<close> and \<open>s.endswith(suf)\<close> is \<^term>\<open>suffix suf s\<close>.\<close>

fun py_split :: "char \<Rightarrow> string \<Rightarrow> string list" where
  "py_split sep [] = [[]]"
| "py_split sep (c # cs) =
     (if c = sep then [] # py_split sep cs
      else (case py_split sep cs of
              [] \<Rightarrow> [[c]]
            | w # ws \<Rightarrow> (c # w) # ws))"

text \<open>\<open>s.replace(old, new)\<close> for a non-empty \<open>old\<close>: leftmost occurrences, not overlapping.\<close>

function py_replace :: "string \<Rightarrow> string \<Rightarrow> string \<Rightarrow> string" where
  "py_replace old new [] = []"
| "py_replace old new (c # cs) =
     (if old \<noteq> [] \<and> prefix old (c # cs)
      then new @ py_replace old new (drop (length old) (c # cs))
      else c # py_replace old new cs)"
  by pat_completeness auto
termination
  by (relation "measure (\<lambda>(old, new, s). length s)") (auto simp: neq_Nil_conv)

definition backslash :: char where
  "backslash = CHR 0x5C"

subsection \<open>Rule A: manufacturer from the DLL path\<close>

definition skip_folders :: "string list" where
  "skip_folders =
     [''vst'', ''vst2'', ''vst3'', ''_effects'', ''_effects 2'', ''effects'', ''mastering'',
      ''reverb'', ''distortion'', ''slowmo'', ''delay'', ''compression'', ''eq'', ''modulation'',
      ''d:'', ''c:'', ''program files'', ''program files (x86)'', ''x64'', ''x86'', ''plugins'',
      ''steinberg'', ''vstplugins'', ''64-bit'', ''32-bit'']"

definition ends_dll :: "string \<Rightarrow> bool" where
  "ends_dll part = suffix ''.dll'' (py_lower part)"

definition acceptable_folder :: "string \<Rightarrow> bool" where
  "acceptable_folder folder =
     (folder \<noteq> [] \<and> py_lower folder \<notin> set skip_folders \<and> length folder > 2)"

text \<open>
  The inner loop \<open>for j in range(i-1, -1, -1)\<close> runs over the parts before index \<open>i\<close>,
  nearest first: that is the list \<open>seen\<close> of the outer loop, kept in reverse.
\<close>

fun scan_back :: "string list \<Rightarrow> string option" where
  "scan_back [] = None"
| "scan_back (p # ps) =
     (let folder = py_strip p
      in if acceptable_folder folder then Some folder else scan_back ps)"

fun find_dll :: "string list \<Rightarrow> string list \<Rightarrow> string option" where
  "find_dll seen [] = None"
| "find_dll seen (part # rest) =
     (if ends_dll part then scan_back seen else find_dll (part # seen) rest)"

definition path_parts :: "string \<Rightarrow> string list" where
  "path_parts dll_path = py_split (CHR ''/'') (py_replace [backslash] ''/'' dll_path)"

definition extract_manufacturer_from_path :: "string \<Rightarrow> string option" where
  "extract_manufacturer_from_path dll_path =
     (if dll_path = [] then None else find_dll [] (path_parts dll_path))"

subsection \<open>Rule B: manufacturer from the plugin name\<close>

definition manufacturer_patterns :: "(string \<times> string) list" where
  "manufacturer_patterns =
     [(''tal-'', ''TAL-Software''),
      (''labs'', ''Spitfire Audio''),
      (''ozone'', ''iZotope''),
      (''levels'', ''Mastering the Mix''),
      (''rc-20'', ''XLN Audio''),
      (''halftime'', ''Cable Guys''),
      (''blackhole'', ''Eventide''),
      (''decapitator'', ''Soundtoys''),
      (''waveshell'', ''Waves''),
      (''2getheraudio'', ''2getheraudio''),
      (''cherry'', ''Cherry Audio'')]"

fun first_pattern :: "(string \<times> string) list \<Rightarrow> string \<Rightarrow> string option" where
  "first_pattern [] plugin_lower = None"
| "first_pattern ((pattern, manufacturer) # rest) plugin_lower =
     (if sublist pattern plugin_lower then Some manufacturer
      else first_pattern rest plugin_lower)"

definition get_manufacturer_from_plugin_name :: "string \<Rightarrow> string option" where
  "get_manufacturer_from_plugin_name plugin_name =
     (if plugin_name = [] then None
      else first_pattern manufacturer_patterns (py_lower plugin_name))"

subsection \<open>Project files and the environment\<close>

text \<open>
  An \<open>xml.etree.ElementTree\<close> element: tag, attributes in document order, text (or
  \<open>None\<close>) and children. \<open>root.iter()\<close> lists the elements in document order.
\<close>

datatype element =
  Element (tag: string) (attrib: "(string \<times> string) list") (elem_text: "string option")
          (children: "element list")

fun iter :: "element \<Rightarrow> element list" where
  "iter (Element t a x cs) = Element t a x cs # concat (map iter cs)"

text \<open>
  \<open>gzip.open\<close>, \<open>f.read()\<close> and \<open>ET.fromstring\<close> either raise (missing file, bad gzip,
  malformed XML), and \<open>Unreadable\<close> then holds the text \<open>str(e)\<close> of the exception, or
  deliver the root element.
\<close>

datatype als_content = Unreadable string | Document element

text \<open>
  What the interpreter and the machine supply: \<open>os.path.basename\<close> and \<open>os.path.join\<close>
  (they differ between platforms); the iteration order of a \<open>set\<close> of strings, which in
  CPython depends on the hashes and on the insertion history, so the rank of a string may
  depend on the list the set is built from and any order of any list is allowed;
  the file contents; and whether \<open>print\<close> of a text succeeds (it raises
  \<open>UnicodeEncodeError\<close> when the encoding of \<open>stdout\<close> lacks a character of the text).
\<close>

record env =
  os_path_basename :: "string \<Rightarrow> string"
  os_path_join :: "string \<Rightarrow> string \<Rightarrow> string"
  set_rank :: "string list \<Rightarrow> string \<Rightarrow> nat"
  open_als :: "string \<Rightarrow> als_content"
  stdout_accepts :: "string \<Rightarrow> bool"

definition list_set :: "env \<Rightarrow> string list \<Rightarrow> string list" where
  \<comment> \<open>\<open>list(set(xs))\<close>\<close>
  "list_set env xs = sort_key (set_rank env xs) (remdups xs)"

text \<open>An exception that leaves \<open>parse_als_file\<close>: the \<open>print\<close> of its handler failed.\<close>

datatype error = PrintFailed string

definition posix_basename :: "string \<Rightarrow> string" where
  "posix_basename p = rev (takeWhile (\<lambda>c. c \<noteq> CHR ''/'') (rev p))"

definition posix_join :: "string \<Rightarrow> string \<Rightarrow> string" where
  "posix_join a b =
     (if prefix ''/'' b then b
      else if a = [] \<or> suffix ''/'' a then a @ b
      else a @ ''/'' @ b)"

subsection \<open>The auditor and \<open>parse_als_file\<close>\<close>

record auditor =
  vst_usage :: "(string \<times> nat) list"
  project_vsts :: "(string \<times> string list) list"
  vst_manufacturers :: "(string \<times> string) list"
  processed_files :: nat
  total_files :: nat
  current_file :: string

definition init_auditor :: auditor where
  "init_auditor =
     \<lparr>vst_usage = [], project_vsts = [], vst_manufacturers = [],
      processed_files = 0, total_files = 0, current_file = []\<rparr>"

text \<open>The two local variables of \<open>parse_als_file\<close>.\<close>

record locals =
  vsts_found :: "string list"
  local_manufacturers :: "(string \<times> string) list"

text \<open>
  The body shared by the check of the element text and the check of each attribute
  value: \<open>if v and '.dll' in v.lower(): ...\<close>.
\<close>

definition dll_reference :: "env \<Rightarrow> string \<Rightarrow> locals \<Rightarrow> locals" where
  "dll_reference env v st =
     (if v \<noteq> [] \<and> sublist ''.dll'' (py_lower v) then
        (let dll_path = py_strip v;
             dll_name = os_path_basename env dll_path
         in if dll_name \<noteq> [] \<and> dll_name \<notin> set (vsts_found st) then
              (let st' = st\<lparr>vsts_found := vsts_found st @ [dll_name]\<rparr>
               in case extract_manufacturer_from_path dll_path of
                    None \<Rightarrow> st'
                  | Some manufacturer \<Rightarrow>
                      if manufacturer \<noteq> [] \<and> map_of (local_manufacturers st') dll_name = None
                      then st'\<lparr>local_manufacturers :=
                                 AList.update dll_name manufacturer (local_manufacturers st')\<rparr>
                      else st')
            else st)
      else st)"

definition text_step :: "env \<Rightarrow> element \<Rightarrow> locals \<Rightarrow> locals" where
  "text_step env elem st =
     (case elem_text elem of None \<Rightarrow> st | Some t \<Rightarrow> dll_reference env t st)"

definition attrib_step :: "env \<Rightarrow> element \<Rightarrow> locals \<Rightarrow> locals" where
  "attrib_step env elem st =
     fold (\<lambda>(attr_name, attr_value). dll_reference env attr_value) (attrib elem) st"

text \<open>The loop \<open>for vst in vsts_found\<close> of the \<open>BrowserContentPath\<close> branch.\<close>

definition name_matches :: "string \<Rightarrow> string \<Rightarrow> bool" where
  "name_matches plugin_name vst =
     (sublist (py_lower plugin_name) (py_lower vst) \<or> sublist (py_lower vst) (py_lower plugin_name))"

fun associate :: "string \<Rightarrow> string \<Rightarrow> string list \<Rightarrow> (string \<times> string) list \<Rightarrow> (string \<times> string) list" where
  "associate manufacturer plugin_name [] lm = lm"
| "associate manufacturer plugin_name (vst # rest) lm =
     associate manufacturer plugin_name rest
       (if name_matches plugin_name vst then AList.update vst manufacturer lm else lm)"

definition browser_step :: "element \<Rightarrow> locals \<Rightarrow> locals" where
  "browser_step elem st =
     (if tag elem = ''BrowserContentPath'' then
        (case find (\<lambda>c. tag c = ''Value'') (children elem) of
           None \<Rightarrow> st
         | Some value_elem \<Rightarrow>
             (case elem_text value_elem of
                None \<Rightarrow> st
              | Some browser_path \<Rightarrow>
                  if browser_path \<noteq> [] \<and> sublist ''Plugins#VST'' browser_path
                     \<and> sublist '':'' browser_path then
                    (let parts = py_split (CHR '':'') browser_path
                     in if length parts \<ge> 4 then
                          (let manufacturer = py_replace ''%20'' '' '' (parts ! 2);
                               plugin_name = py_replace ''%20'' '' '' (parts ! 3)
                           in st\<lparr>local_manufacturers :=
                                   associate manufacturer plugin_name (vsts_found st)
                                     (local_manufacturers st)\<rparr>)
                        else st)
                  else st))
      else st)"

definition add_found :: "string \<Rightarrow> locals \<Rightarrow> locals" where
  "add_found name st = st\<lparr>vsts_found := vsts_found st @ [name]\<rparr>"

definition child_step :: "element \<Rightarrow> locals \<Rightarrow> locals" where
  "child_step child st =
     (case elem_text child of
        None \<Rightarrow> st
      | Some t \<Rightarrow>
          if t \<noteq> [] \<and> \<not> suffix ''.dll'' t \<and> length t < 100 then
            (let plugin_name = py_strip t
             in if plugin_name \<noteq> [] \<and> plugin_name \<notin> set (vsts_found st)
                then add_found plugin_name st else st)
          else st)"

definition plugin_info_step :: "element \<Rightarrow> locals \<Rightarrow> locals" where
  "plugin_info_step elem st =
     (if tag elem \<in> set [''VstPluginInfo'', ''Vst3PluginInfo'', ''PluginDesc''] then
        (let st' = (case map_of (attrib elem) ''Name'' of
                      None \<Rightarrow> st
                    | Some name \<Rightarrow>
                        if name \<noteq> [] \<and> name \<notin> set (vsts_found st) \<and> \<not> suffix ''.dll'' name
                        then add_found name st else st)
         in fold child_step (children elem) st')
      else st)"

definition elem_step :: "env \<Rightarrow> element \<Rightarrow> locals \<Rightarrow> locals" where
  "elem_step env elem st =
     plugin_info_step elem (browser_step elem (attrib_step env elem (text_step env elem st)))"

text \<open>
  \<open>local_manufacturers.get(vst) or self.get_manufacturer_from_plugin_name(vst) or "Unknown"\<close>:
  \<open>or\<close> passes over \<open>None\<close> and over the empty string.
\<close>

definition resolve_manufacturer :: "(string \<times> string) list \<Rightarrow> string \<Rightarrow> string" where
  "resolve_manufacturer lm vst =
     (let by_name = (case get_manufacturer_from_plugin_name vst of
                       None \<Rightarrow> ''Unknown''
                     | Some m \<Rightarrow> if m \<noteq> [] then m else ''Unknown'')
      in case map_of lm vst of
           None \<Rightarrow> by_name
         | Some m \<Rightarrow> if m \<noteq> [] then m else by_name)"

fun commit :: "(string \<times> string) list \<Rightarrow> string list \<Rightarrow> (string \<times> string) list \<Rightarrow> (string \<times> string) list" where
  "commit lm [] manufacturers = manufacturers"
| "commit lm (vst # rest) manufacturers =
     commit lm rest
       (if map_of manufacturers vst = None
        then AList.update vst (resolve_manufacturer lm vst) manufacturers
        else manufacturers)"

text \<open>
  Every statement of the \<open>try\<close> block that can raise comes before the element loop,
  so the handler \<open>except Exception\<close> is reached with both locals still empty and the
  auditor untouched. The handler prints \<open>f"Error parsing {file_path}: {e}"\<close>; when that
  \<open>print\<close> raises, the exception leaves the function. The result is what the call
  returned or raised, together with the auditor after the call.
\<close>

definition error_message :: "string \<Rightarrow> string \<Rightarrow> string" where
  "error_message file_path e = ''Error parsing '' @ file_path @ '': '' @ e"

definition parse_als_file :: "env \<Rightarrow> string \<Rightarrow> auditor \<Rightarrow> (error + string list) \<times> auditor" where
  "parse_als_file env file_path a =
     (case open_als env file_path of
        Unreadable e \<Rightarrow>
          if stdout_accepts env (error_message file_path e)
          then (Inr (list_set env []), a)
          else (Inl (PrintFailed (error_message file_path e)), a)
      | Document root \<Rightarrow>
          (let st = fold (elem_step env) (iter root) \<lparr>vsts_found = [], local_manufacturers = []\<rparr>
           in (Inr (list_set env (vsts_found st)),
               a\<lparr>vst_manufacturers :=
                   commit (local_manufacturers st) (vsts_found st) (vst_manufacturers a)\<rparr>)))"

subsection \<open>\<open>find_als_files\<close> and \<open>scan_directory\<close>\<close>

text \<open>
  The directory tree under the scanned path: files, readable directories with their
  entries in listing order, and directories \<open>os.walk\<close> cannot list (it skips them, so
  the handler of \<open>find_als_files\<close> for \<open>OSError\<close> is not reached).
\<close>

datatype node = File string | Dir string "node list" | Denied string

fun walk_files :: "env \<Rightarrow> string \<Rightarrow> node list \<Rightarrow> string list" where
  "walk_files env root entries =
     [os_path_join env root file. File file \<leftarrow> entries, suffix ''.als'' (py_lower file)]
     @ concat (map (\<lambda>entry. case entry of
                              Dir d sub \<Rightarrow> walk_files env (os_path_join env root d) sub
                            | _ \<Rightarrow> [])
                entries)"

declare walk_files.simps [simp del]

definition find_als_files :: "env \<Rightarrow> node \<Rightarrow> string list" where
  "find_als_files env directory =
     (case directory of Dir path entries \<Rightarrow> walk_files env path entries | _ \<Rightarrow> [])"

definition count_of :: "(string \<times> nat) list \<Rightarrow> string \<Rightarrow> nat" where
  \<comment> \<open>\<open>Counter.__getitem__\<close>: a missing key counts 0\<close>
  "count_of usage vst = (case map_of usage vst of None \<Rightarrow> 0 | Some n \<Rightarrow> n)"

definition increment :: "string \<Rightarrow> (string \<times> nat) list \<Rightarrow> (string \<times> nat) list" where
  \<comment> \<open>\<open>self.vst_usage[vst] += 1\<close>\<close>
  "increment vst usage = AList.update vst (count_of usage vst + 1) usage"

text \<open>
  The body of the loop \<open>for file_path in als_files\<close>. \<open>scan_directory\<close> has no handler of
  its own: an exception that leaves \<open>parse_als_file\<close> ends the loop and the scan, and
  the auditor stays as it was at that moment. The first component of a result is the
  exception, if any.
\<close>

definition process_file :: "env \<Rightarrow> string \<Rightarrow> auditor \<Rightarrow> error option \<times> auditor" where
  "process_file env file_path a =
     (let a1 = a\<lparr>current_file := os_path_basename env file_path\<rparr>
      in case parse_als_file env file_path a1 of
           (Inl e, a2) \<Rightarrow> (Some e, a2)
         | (Inr vsts, a2) \<Rightarrow>
             (let a3 = (if vsts \<noteq> [] then
                          a2\<lparr>project_vsts := AList.update file_path vsts (project_vsts a2),
                             vst_usage := fold increment vsts (vst_usage a2)\<rparr>
                        else a2)
              in (None, a3\<lparr>processed_files := processed_files a3 + 1\<rparr>)))"

fun scan_files :: "env \<Rightarrow> string list \<Rightarrow> auditor \<Rightarrow> error option \<times> auditor" where
  "scan_files env [] a = (None, a)"
| "scan_files env (file_path # rest) a =
     (case process_file env file_path a of
        (Some e, a') \<Rightarrow> (Some e, a')
      | (None, a') \<Rightarrow> scan_files env rest a')"

definition scan_directory :: "env \<Rightarrow> node \<Rightarrow> auditor \<Rightarrow> error option \<times> auditor" where
  "scan_directory env directory a =
     (let a1 = a\<lparr>vst_usage := [], project_vsts := [], processed_files := 0\<rparr>;
          als_files = find_als_files env directory;
          a2 = a1\<lparr>total_files := length als_files\<rparr>
      in if als_files = [] then (None, a2) else scan_files env als_files a2)"

subsection \<open>\<open>generate_report\<close>\<close>

text \<open>
  The report is the sequence of strings handed to \<open>f.write\<close>, in order; the file holds
  their concatenation. The bullet \<open>U+2022\<close> of the list sections lies outside
  \<^typ>\<open>char\<close>, so written text is a list of code points. The timestamp
  \<open>datetime.now().strftime(...)\<close> is an argument.
\<close>

type_synonym utext = "nat list"

definition u :: "string \<Rightarrow> utext" where
  "u s = map of_char s"

definition bullet :: utext where
  "bullet = [8226]"

definition nl :: string where
  "nl = [CHR 0x0A]"

function decimal :: "nat \<Rightarrow> string" where
  "decimal n =
     (if n < 10 then [char_of (48 + n)] else decimal (n div 10) @ [char_of (48 + n mod 10)])"
  by pat_completeness auto
termination
  by (relation "measure id") auto

declare decimal.simps [simp del]

definition rjust :: "nat \<Rightarrow> string \<Rightarrow> string" where
  "rjust w s = replicate (w - length s) (CHR '' '') @ s"

definition ljust :: "nat \<Rightarrow> string \<Rightarrow> string" where
  "ljust w s = s @ replicate (w - length s) (CHR '' '')"

definition manufacturer_of :: "auditor \<Rightarrow> string \<Rightarrow> string" where
  \<comment> \<open>\<open>self.vst_manufacturers.get(vst, "Unknown")\<close>\<close>
  "manufacturer_of a vst = (case map_of (vst_manufacturers a) vst of None \<Rightarrow> ''Unknown'' | Some m \<Rightarrow> m)"

definition most_common :: "(string \<times> nat) list \<Rightarrow> (string \<times> nat) list" where
  \<comment> \<open>a stable sort by falling count\<close>
  "most_common usage = sort_key (\<lambda>(vst, count). - int count) usage"

definition header :: "string \<Rightarrow> auditor \<Rightarrow> utext list" where
  "header now a =
     [u (''ABLETON VST AUDIT REPORT'' @ nl),
      u (replicate 50 (CHR ''='') @ nl),
      u (''Generated: '' @ now @ nl),
      u (''Total Projects Scanned: '' @ decimal (length (project_vsts a)) @ nl),
      u (''Total Unique VSTs Found: '' @ decimal (length (vst_usage a)) @ nl @ nl)]"

definition usage_summary :: "auditor \<Rightarrow> utext list" where
  "usage_summary a =
     [u (''VST USAGE SUMMARY (by frequency)'' @ nl), u (replicate 40 (CHR ''-'') @ nl)]
     @ map (\<lambda>(vst, count).
              u (rjust 3 (decimal count) @ ''x  '' @ ljust 35 vst @ '' ['' @ manufacturer_of a vst
                 @ '']'' @ nl))
           (most_common (vst_usage a))"

definition group_by_manufacturer :: "auditor \<Rightarrow> (string \<times> (string \<times> nat) list) list" where
  "group_by_manufacturer a =
     fold (\<lambda>vst by_manufacturer.
             (let manufacturer = manufacturer_of a vst;
                  old = (case map_of by_manufacturer manufacturer of None \<Rightarrow> [] | Some l \<Rightarrow> l)
              in AList.update manufacturer (old @ [(vst, count_of (vst_usage a) vst)]) by_manufacturer))
          (map fst (vst_usage a)) []"

definition by_manufacturer_section :: "auditor \<Rightarrow> utext list" where
  "by_manufacturer_section a =
     [u (nl @ nl @ ''VSTS BY MANUFACTURER'' @ nl), u (replicate 30 (CHR ''-'') @ nl)]
     @ concat (map (\<lambda>manufacturer.
                      u (nl @ manufacturer @ '':'' @ nl)
                      # map (\<lambda>(vst, count).
                               u ''  '' @ bullet @ u ('' '' @ vst @ '' ('' @ decimal count @ ''x)'' @ nl))
                            (sort_key fst
                               (case map_of (group_by_manufacturer a) manufacturer of
                                  None \<Rightarrow> [] | Some l \<Rightarrow> l)))
                   (sort (map fst (group_by_manufacturer a))))"

definition alphabetical_section :: "auditor \<Rightarrow> utext list" where
  "alphabetical_section a =
     [u (nl @ nl @ ''ALPHABETICAL VST LIST'' @ nl), u (replicate 30 (CHR ''-'') @ nl)]
     @ map (\<lambda>vst. bullet @ u ('' '' @ ljust 35 vst @ '' ['' @ manufacturer_of a vst @ '']'' @ nl))
           (sort (map fst (vst_usage a)))"

definition project_section :: "env \<Rightarrow> auditor \<Rightarrow> utext list" where
  "project_section env a =
     [u (nl @ nl @ ''PROJECT BREAKDOWN'' @ nl), u (replicate 25 (CHR ''-'') @ nl)]
     @ concat (map (\<lambda>(project_path, vsts).
                      u (nl @ os_path_basename env project_path @ '':'' @ nl)
                      # map (\<lambda>vst. u ''  '' @ bullet
                                     @ u ('' '' @ ljust 35 vst @ '' ['' @ manufacturer_of a vst @ '']'' @ nl))
                            (sort (remdups vsts)))
                   (project_vsts a))"

definition no_plugins_line :: utext where
  "no_plugins_line = u (''No VST plugins found in the scanned projects.'' @ nl)"

definition generate_report :: "env \<Rightarrow> string \<Rightarrow> auditor \<Rightarrow> utext list" where
  "generate_report env now a =
     header now a
     @ (if vst_usage a \<noteq> [] then
          usage_summary a @ by_manufacturer_section a @ alphabetical_section a @ project_section env a
        else [no_plugins_line])"

subsection \<open>Notions used in the statements\<close>

text \<open>\<open>sep.join(parts)\<close>, the inverse of splitting.\<close>

fun py_join :: "char \<Rightarrow> string list \<Rightarrow> string" where
  "py_join sep [] = []"
| "py_join sep [w] = w"
| "py_join sep (w # ws) = w @ sep # py_join sep ws"

text \<open>A Windows path with both separators, padded folder names and two DLL segments.\<close>

definition windows_path :: string where
  "windows_path = ''C:'' @ [backslash] @ ''Program Files'' @ [backslash] @ ''VstPlugins''
     @ [backslash] @ '' Acme Audio '' @ [backslash] @ ''x64/Comp.DLL'' @ [backslash] @ ''Other/b.dll''"

text \<open>
  What \<open>parse_als_file\<close> raises for a file, if anything, and the list it returns (none
  when it raises); neither depends on the auditor.
\<close>

definition parse_error :: "env \<Rightarrow> string \<Rightarrow> error option" where
  "parse_error env file_path =
     (case fst (parse_als_file env file_path init_auditor) of Inl e \<Rightarrow> Some e | Inr vsts \<Rightarrow> None)"

definition found_in :: "env \<Rightarrow> string \<Rightarrow> string list" where
  "found_in env file_path =
     (case fst (parse_als_file env file_path init_auditor) of Inl e \<Rightarrow> [] | Inr vsts \<Rightarrow> vsts)"

definition readable :: "env \<Rightarrow> string \<Rightarrow> bool" where
  "readable env file_path = (case open_als env file_path of Unreadable e \<Rightarrow> False | Document root \<Rightarrow> True)"

text \<open>Invariants of the loop of \<open>scan_directory\<close>.\<close>

definition registry_distinct :: "auditor \<Rightarrow> bool" where
  "registry_distinct a = (\<forall>(file_path, vsts) \<in> set (project_vsts a). distinct vsts)"

definition usage_matches_registry :: "auditor \<Rightarrow> bool" where
  "usage_matches_registry a =
     ((\<forall>vst. count_of (vst_usage a) vst
              = length (filter (\<lambda>(file_path, vsts). vst \<in> set vsts) (project_vsts a)))
      \<and> fst ` set (vst_usage a) = (\<Union>(file_path, vsts) \<in> set (project_vsts a). set vsts))"

text \<open>
  The directory tree without the project files that cannot be opened or parsed, and the
  two halves of \<open>walk_files\<close>: the project files of a directory itself and those below it.
\<close>

fun keep_readable :: "env \<Rightarrow> string \<Rightarrow> node list \<Rightarrow> node list" where
  "keep_readable env root [] = []"
| "keep_readable env root (File name # entries) =
     (if suffix ''.als'' (py_lower name) \<and> \<not> readable env (os_path_join env root name)
      then keep_readable env root entries
      else File name # keep_readable env root entries)"
| "keep_readable env root (Dir d sub # entries) =
     Dir d (keep_readable env (os_path_join env root d) sub) # keep_readable env root entries"
| "keep_readable env root (Denied d # entries) = Denied d # keep_readable env root entries"

definition without_unreadable :: "env \<Rightarrow> node \<Rightarrow> node" where
  "without_unreadable env directory =
     (case directory of
        Dir path entries \<Rightarrow> Dir path (keep_readable env path entries)
      | _ \<Rightarrow> directory)"

definition als_here :: "env \<Rightarrow> string \<Rightarrow> node list \<Rightarrow> string list" where
  "als_here env root entries =
     [os_path_join env root file. File file \<leftarrow> entries, suffix ''.als'' (py_lower file)]"

definition als_below :: "env \<Rightarrow> string \<Rightarrow> node list \<Rightarrow> string list" where
  "als_below env root entries =
     concat (map (\<lambda>entry. case entry of
                              Dir d sub \<Rightarrow> walk_files env (os_path_join env root d) sub
                            | _ \<Rightarrow> [])
                entries)"

text \<open>Two auditors that agree on the three result structures.\<close>

definition same_results :: "auditor \<Rightarrow> auditor \<Rightarrow> bool" where
  "same_results a b =
     (vst_usage a = vst_usage b \<and> project_vsts a = project_vsts b
      \<and> vst_manufacturers a = vst_manufacturers b)"

text \<open>
  A directory listing as a file system gives it: every name is non-empty and free of
  \<open>/\<close>, and no name occurs twice in one directory. \<open>rel_here\<close> and \<open>rel_below\<close> are
  the project files of such a tree by their paths relative to its root.
\<close>

definition ok_name :: "string \<Rightarrow> bool" where
  "ok_name n = (n \<noteq> [] \<and> CHR ''/'' \<notin> set n)"

fun node_name :: "node \<Rightarrow> string" where
  "node_name (File n) = n"
| "node_name (Dir d sub) = d"
| "node_name (Denied d) = d"

fun well_formed :: "node list \<Rightarrow> bool" where
  "well_formed [] = True"
| "well_formed (File n # entries) =
     (ok_name n \<and> n \<notin> node_name ` set entries \<and> well_formed entries)"
| "well_formed (Dir d sub # entries) =
     (ok_name d \<and> d \<notin> node_name ` set entries \<and> well_formed sub \<and> well_formed entries)"
| "well_formed (Denied d # entries) =
     (ok_name d \<and> d \<notin> node_name ` set entries \<and> well_formed entries)"

definition rel_here :: "node list \<Rightarrow> string list" where
  "rel_here entries = [name. File name \<leftarrow> entries, suffix ''.als'' (py_lower name)]"

fun rel_below :: "node list \<Rightarrow> string list" where
  "rel_below [] = []"
| "rel_below (Dir d sub # entries) =
     map (\<lambda>r. d @ ''/'' @ r) (rel_here sub @ rel_below sub) @ rel_below entries"
| "rel_below (File n # entries) = rel_below entries"
| "rel_below (Denied d # entries) = rel_below entries"

definition dir_prefix :: "string \<Rightarrow> string" where
  "dir_prefix root = (if root = [] \<or> suffix ''/'' root then root else root @ ''/'')"

subsection \<open>A project folder used in the examples\<close>

text \<open>
  Two readable projects and a broken one. The first names \<open>Widget.dll\<close> twice with its
  path below \<open>CompanyX\<close>; the second names it bare. \<open>browser_elem\<close> is a browser
  entry for \<open>Widget\<close> by another vendor, and \<open>stale_auditor\<close> an auditor that has
  seen a plugin before.
\<close>

definition browser_elem :: element where
  "browser_elem =
     Element ''BrowserContentPath'' [] None
       [Element ''Id'' [] (Some ''7'') [],
        Element ''Value'' [] (Some ''query:Plugins#VST:Widget%20Works:Widget'') []]"

definition first_project :: element where
  "first_project =
     Element ''Ableton'' [] None
       [Element ''Path'' [(''Value'', ''C:/VST/CompanyX/Widget.dll'')] None [],
        Element ''FileRef'' [] (Some '' C:/VST/CompanyX/Widget.dll '') [],
        Element ''VstPluginInfo'' [(''Name'', ''Serum'')] None
          [Element ''PlugName'' [] (Some ''Serum '') []]]"

definition second_project :: element where
  "second_project = Element ''Ableton'' [] (Some ''Widget.dll'') []"

definition example_files :: "string \<Rightarrow> als_content" where
  "example_files file_path =
     (if file_path = ''Music/first.als'' then Document first_project
      else if file_path = ''Music/live/second.ALS'' then Document second_project
      else Unreadable ''Not a gzipped file'')"

definition example_env :: env where
  "example_env =
     \<lparr>os_path_basename = posix_basename, os_path_join = posix_join,
      set_rank = (\<lambda>xs. length), open_als = example_files, stdout_accepts = (\<lambda>text. True)\<rparr>"

definition example_tree :: node where
  "example_tree =
     Dir ''Music''
       [File ''first.als'', File ''notes.txt'', File ''broken.als'',
        Dir ''live'' [File ''second.ALS''], Denied ''private'']"

definition stale_auditor :: auditor where
  "stale_auditor = init_auditor\<lparr>vst_manufacturers := [(''Old.dll'', ''Acme'')]\<rparr>"

text \<open>
  A \<open>stdout\<close> with the ASCII encoding, and a folder that lists a broken project with
  \<open>U+00F6\<close> in its name before the first project.
\<close>

definition ascii_only :: "string \<Rightarrow> bool" where
  "ascii_only text = list_all (\<lambda>c. (of_char c :: nat) < 128) text"

definition ascii_env :: env where
  "ascii_env = example_env\<lparr>stdout_accepts := ascii_only\<rparr>"

definition umlaut_name :: string where
  "umlaut_name = ''br'' @ [CHR 0xF6] @ ''ken.als''"

definition umlaut_tree :: node where
  "umlaut_tree = Dir ''Music'' [File umlaut_name, File ''first.als'']"

section \<open>Properties\<close>

subsection \<open>Splitting and replacing\<close>

lemma py_split_not_Nil: "py_split sep s \<noteq> []"
  by (induction s) (auto split: list.splits)

lemma py_split_no_sep: "w \<in> set (py_split sep s) \<Longrightarrow> sep \<notin> set w"
  by (induction s arbitrary: w) (auto split: if_splits list.splits)

lemma py_split_subset: "w \<in> set (py_split sep s) \<Longrightarrow> set w \<subseteq> set s"
  by (induction s arbitrary: w) (fastforce split: if_splits list.splits)+

lemma py_join_split: "py_join sep (py_split sep s) = s"
proof (induction s)
  case Nil
  show ?case by simp
next
  case (Cons c cs)
  obtain w ws where ws: "py_split sep cs = w # ws"
    using py_split_not_Nil [of sep cs] by (cases "py_split sep cs") auto
  with Cons show ?case by (cases ws) auto
qed

lemma py_split_without_sep: "sep \<notin> set s \<Longrightarrow> py_split sep s = [s]"
  by (induction s) auto

lemma py_replace_char: "py_replace [b] [c] s = map (\<lambda>x. if x = b then c else x) s"
  by (induction s) auto

subsection \<open>Rule A\<close>

lemma scan_back_find: "scan_back ps = find acceptable_folder (map py_strip ps)"
  by (induction ps) (auto simp: Let_def)

lemma find_dll_takeWhile:
  "find_dll seen rest =
     (if \<exists>part \<in> set rest. ends_dll part
      then scan_back (rev (takeWhile (\<lambda>part. \<not> ends_dll part) rest) @ seen)
      else None)"
  by (induction rest arbitrary: seen) auto

lemma path_parts_no_sep:
  assumes "part \<in> set (path_parts p)"
  shows "CHR ''/'' \<notin> set part \<and> backslash \<notin> set part"
proof
  show "CHR ''/'' \<notin> set part"
    using assms unfolding path_parts_def by (rule py_split_no_sep)
  have "set part \<subseteq> set (py_replace [backslash] ''/'' p)"
    using assms unfolding path_parts_def by (rule py_split_subset)
  moreover have "backslash \<notin> set (py_replace [backslash] ''/'' p)"
    by (auto simp: py_replace_char backslash_def)
  ultimately show "backslash \<notin> set part" by blast
qed

lemma extract_manufacturer_from_path_find:
  "extract_manufacturer_from_path p =
     (if \<exists>part \<in> set (path_parts p). ends_dll part
      then find acceptable_folder
             (map py_strip (rev (takeWhile (\<lambda>part. \<not> ends_dll part) (path_parts p))))
      else None)"
proof (cases "p = []")
  case True
  have "\<not> (\<exists>part \<in> set (path_parts []). ends_dll part)"
    by (simp add: path_parts_def ends_dll_def py_lower_def)
  with True show ?thesis by (simp add: extract_manufacturer_from_path_def)
next
  case False
  then show ?thesis
    by (simp add: extract_manufacturer_from_path_def find_dll_takeWhile scan_back_find)
qed

text \<open>
  Claim C5. \<open>extract_manufacturer_from_path\<close> cuts the path at every \<open>/\<close> and every
  backslash (the parts contain neither, and joined by \<open>/\<close> they give the path back with
  its backslashes turned into \<open>/\<close>). It takes the parts before the first one that ends,
  in lower case, in \<open>.dll\<close>, walks them backwards and returns the first stripped part
  that is non-empty, longer than 2 characters and, in lower case, not in the stoplist;
  it returns \<open>None\<close> when no part ends in \<open>.dll\<close> or no part before it qualifies.
  For \<open>.../SomeVendor/vst/reverb/Plugin.dll\<close> the result is \<open>SomeVendor\<close>.
\<close>

theorem rule_A_path_segments:
  "py_join (CHR ''/'') (path_parts dll_path)
     = map (\<lambda>c. if c = backslash then CHR ''/'' else c) dll_path
   \<and> (\<forall>part \<in> set (path_parts dll_path). CHR ''/'' \<notin> set part \<and> backslash \<notin> set part)
   \<and> extract_manufacturer_from_path dll_path =
       (if \<exists>part \<in> set (path_parts dll_path). suffix ''.dll'' (py_lower part)
        then find (\<lambda>folder. folder \<noteq> [] \<and> 2 < length folder \<and> py_lower folder \<notin> set skip_folders)
               (map py_strip
                  (rev (takeWhile (\<lambda>part. \<not> suffix ''.dll'' (py_lower part)) (path_parts dll_path))))
        else None)
   \<and> extract_manufacturer_from_path ''.../SomeVendor/vst/reverb/Plugin.dll'' = Some ''SomeVendor''"
proof (intro conjI)
  show "py_join (CHR ''/'') (path_parts dll_path)
     = map (\<lambda>c. if c = backslash then CHR ''/'' else c) dll_path"
    by (simp add: path_parts_def py_join_split py_replace_char)
  show "\<forall>part \<in> set (path_parts dll_path). CHR ''/'' \<notin> set part \<and> backslash \<notin> set part"
    using path_parts_no_sep by blast
  have "acceptable_folder = (\<lambda>folder. folder \<noteq> [] \<and> 2 < length folder \<and> py_lower folder \<notin> set skip_folders)"
    by (auto simp: acceptable_folder_def fun_eq_iff)
  then show "extract_manufacturer_from_path dll_path =
       (if \<exists>part \<in> set (path_parts dll_path). suffix ''.dll'' (py_lower part)
        then find (\<lambda>folder. folder \<noteq> [] \<and> 2 < length folder \<and> py_lower folder \<notin> set skip_folders)
               (map py_strip
                  (rev (takeWhile (\<lambda>part. \<not> suffix ''.dll'' (py_lower part)) (path_parts dll_path))))
        else None)"
    using extract_manufacturer_from_path_find [of dll_path] by (simp add: ends_dll_def)
  show "extract_manufacturer_from_path ''.../SomeVendor/vst/reverb/Plugin.dll'' = Some ''SomeVendor''"
    by code_simp
qed

text \<open>The same on a Windows path: the nearest folder that is not stoplisted, stripped.\<close>

theorem rule_A_path_segments_witness:
  "extract_manufacturer_from_path windows_path = Some ''Acme Audio''"
proof -
  have "extract_manufacturer_from_path windows_path =
       (if \<exists>part \<in> set (path_parts windows_path). suffix ''.dll'' (py_lower part)
        then find (\<lambda>folder. folder \<noteq> [] \<and> 2 < length folder \<and> py_lower folder \<notin> set skip_folders)
               (map py_strip
                  (rev (takeWhile (\<lambda>part. \<not> suffix ''.dll'' (py_lower part)) (path_parts windows_path))))
        else None)"
    using rule_A_path_segments [of windows_path] by blast
  also have "\<dots> = Some ''Acme Audio''"
    by code_simp
  finally show ?thesis .
qed

subsection \<open>Rule B\<close>

lemma first_pattern_find:
  "first_pattern table s = map_option snd (find (\<lambda>(pattern, manufacturer). sublist pattern s) table)"
  by (induction table s rule: first_pattern.induct) auto

lemma find_snd_index:
  "map_option snd (find P table) = Some v \<longleftrightarrow>
     (\<exists>i < length table. snd (table ! i) = v \<and> P (table ! i) \<and> (\<forall>j < i. \<not> P (table ! j)))"
  unfolding map_option_eq_Some find_Some_iff by blast

lemma patterns_not_empty: "\<forall>(pattern, manufacturer) \<in> set manufacturer_patterns. pattern \<noteq> []"
  by (simp add: manufacturer_patterns_def)

lemma rule_B_find:
  "get_manufacturer_from_plugin_name n =
     map_option snd (find (\<lambda>(pattern, manufacturer). sublist pattern (py_lower n)) manufacturer_patterns)"
proof (cases "n = []")
  case True
  have "find (\<lambda>(pattern, manufacturer). sublist pattern []) manufacturer_patterns = None"
    using patterns_not_empty by (auto simp: find_None_iff)
  with True show ?thesis
    by (simp add: get_manufacturer_from_plugin_name_def py_lower_def)
next
  case False
  then show ?thesis by (simp add: get_manufacturer_from_plugin_name_def first_pattern_find)
qed

text \<open>
  Claim C6. \<open>get_manufacturer_from_plugin_name\<close> returns the vendor of the first entry of
  the pattern table, in table order, whose pattern occurs in the lower-cased name, and
  \<open>None\<close> exactly when no pattern occurs in it. \<open>TAL-Reverb-4\<close> gives \<open>TAL-Software\<close>
  through the first entry, \<open>tal-\<close>.
\<close>

theorem rule_B_first_pattern:
  "(get_manufacturer_from_plugin_name plugin_name = Some vendor \<longleftrightarrow>
      (\<exists>i < length manufacturer_patterns.
         snd (manufacturer_patterns ! i) = vendor
         \<and> sublist (fst (manufacturer_patterns ! i)) (py_lower plugin_name)
         \<and> (\<forall>j < i. \<not> sublist (fst (manufacturer_patterns ! j)) (py_lower plugin_name))))
   \<and> (get_manufacturer_from_plugin_name plugin_name = None \<longleftrightarrow>
      (\<forall>(pattern, manufacturer) \<in> set manufacturer_patterns. \<not> sublist pattern (py_lower plugin_name)))
   \<and> get_manufacturer_from_plugin_name ''TAL-Reverb-4'' = Some ''TAL-Software''
   \<and> manufacturer_patterns ! 0 = (''tal-'', ''TAL-Software'')
   \<and> sublist ''tal-'' (py_lower ''TAL-Reverb-4'')"
proof (intro conjI)
  show "get_manufacturer_from_plugin_name plugin_name = Some vendor \<longleftrightarrow>
      (\<exists>i < length manufacturer_patterns.
         snd (manufacturer_patterns ! i) = vendor
         \<and> sublist (fst (manufacturer_patterns ! i)) (py_lower plugin_name)
         \<and> (\<forall>j < i. \<not> sublist (fst (manufacturer_patterns ! j)) (py_lower plugin_name)))"
    unfolding rule_B_find find_snd_index by (simp add: case_prod_unfold)
  show "get_manufacturer_from_plugin_name plugin_name = None \<longleftrightarrow>
      (\<forall>(pattern, manufacturer) \<in> set manufacturer_patterns. \<not> sublist pattern (py_lower plugin_name))"
    unfolding rule_B_find by (auto simp: find_None_iff)
  show "get_manufacturer_from_plugin_name ''TAL-Reverb-4'' = Some ''TAL-Software''"
    by code_simp
  show "manufacturer_patterns ! 0 = (''tal-'', ''TAL-Software'')"
    by (simp add: manufacturer_patterns_def)
  show "sublist ''tal-'' (py_lower ''TAL-Reverb-4'')"
    by code_simp
qed

text \<open>A name with two patterns in it takes the earlier table entry; a name with none has no vendor.\<close>

theorem rule_B_first_pattern_witness:
  "get_manufacturer_from_plugin_name ''iZotope Ozone 9 LABS'' = Some ''Spitfire Audio''
   \<and> get_manufacturer_from_plugin_name ''Serum'' = None"
proof -
  have "\<exists>i < length manufacturer_patterns.
         snd (manufacturer_patterns ! i) = ''Spitfire Audio''
         \<and> sublist (fst (manufacturer_patterns ! i)) (py_lower ''iZotope Ozone 9 LABS'')
         \<and> (\<forall>j < i. \<not> sublist (fst (manufacturer_patterns ! j)) (py_lower ''iZotope Ozone 9 LABS''))"
  proof (intro exI [of _ 1] conjI allI impI)
    show "1 < length manufacturer_patterns" by (simp add: manufacturer_patterns_def)
    show "snd (manufacturer_patterns ! 1) = ''Spitfire Audio''" by (simp add: manufacturer_patterns_def)
    show "sublist (fst (manufacturer_patterns ! 1)) (py_lower ''iZotope Ozone 9 LABS'')" by code_simp
    fix j :: nat assume "j < 1"
    then have "j = 0" by simp
    moreover have "\<not> sublist (fst (manufacturer_patterns ! 0)) (py_lower ''iZotope Ozone 9 LABS'')"
      by code_simp
    ultimately show "\<not> sublist (fst (manufacturer_patterns ! j)) (py_lower ''iZotope Ozone 9 LABS'')"
      by simp
  qed
  moreover have "\<forall>(pattern, manufacturer) \<in> set manufacturer_patterns. \<not> sublist pattern (py_lower ''Serum'')"
    by code_simp
  ultimately show ?thesis
    using rule_B_first_pattern [of "''iZotope Ozone 9 LABS''" "''Spitfire Audio''"]
      rule_B_first_pattern [of "''Serum''" "''x''"]
    by blast
qed

subsection \<open>Parsing one file\<close>

lemma distinct_list_set: "distinct (list_set env xs)"
  by (simp add: list_set_def)

lemma set_list_set: "set (list_set env xs) = set xs"
  by (simp add: list_set_def)

lemma list_set_Nil: "list_set env [] = []"
  by (simp add: list_set_def)

lemma update_new_key: "map_of al k = None \<Longrightarrow> AList.update k v al = al @ [(k, v)]"
  by (induction al) (auto split: if_splits)

lemma set_update_cases:
  "(k', v') \<in> set (AList.update k v al) \<Longrightarrow> (k', v') = (k, v) \<or> (k', v') \<in> set al"
  by (induction al) (auto split: if_splits)

lemma commit_keeps:
  "map_of manufacturers vst = Some m \<Longrightarrow> map_of (commit lm found manufacturers) vst = Some m"
proof (induction found arbitrary: manufacturers)
  case Nil
  then show ?case by simp
next
  case (Cons x xs)
  let ?next = "if map_of manufacturers x = None
      then AList.update x (resolve_manufacturer lm x) manufacturers else manufacturers"
  have "map_of ?next vst = Some m"
    using Cons.prems by (auto simp: update_conv')
  then have "map_of (commit lm xs ?next) vst = Some m"
    by (rule Cons.IH)
  then show ?case by simp
qed

lemma commit_covers:
  "vst \<in> set found \<Longrightarrow> map_of (commit lm found manufacturers) vst \<noteq> None"
proof (induction found arbitrary: manufacturers)
  case Nil
  then show ?case by simp
next
  case (Cons x xs)
  show ?case
  proof (cases "vst = x")
    case True
    let ?next = "if map_of manufacturers x = None
        then AList.update x (resolve_manufacturer lm x) manufacturers else manufacturers"
    have "map_of ?next x \<noteq> None" by (auto simp: update_conv')
    then obtain v where "map_of ?next x = Some v" by blast
    then have "map_of (commit lm xs ?next) x = Some v" by (rule commit_keeps)
    with True show ?thesis by simp
  next
    case False
    with Cons show ?thesis by simp
  qed
qed

lemma fst_parse_als_file:
  "fst (parse_als_file env file_path a) =
     (case parse_error env file_path of None \<Rightarrow> Inr (found_in env file_path) | Some e \<Rightarrow> Inl e)"
  by (simp add: parse_error_def found_in_def parse_als_file_def Let_def split: als_content.splits)

lemma found_in_raised: "parse_error env file_path = Some e \<Longrightarrow> found_in env file_path = []"
  by (simp add: parse_error_def found_in_def split: sum.splits)

lemma distinct_found_in: "distinct (found_in env file_path)"
  by (simp add: found_in_def parse_als_file_def Let_def distinct_list_set split: als_content.splits)

lemma parse_als_file_fields:
  "vst_usage (snd (parse_als_file env file_path a)) = vst_usage a
   \<and> project_vsts (snd (parse_als_file env file_path a)) = project_vsts a
   \<and> processed_files (snd (parse_als_file env file_path a)) = processed_files a
   \<and> total_files (snd (parse_als_file env file_path a)) = total_files a
   \<and> current_file (snd (parse_als_file env file_path a)) = current_file a"
  by (simp add: parse_als_file_def Let_def split: als_content.splits)

lemma parse_als_file_manufacturers_cong:
  "vst_manufacturers a = vst_manufacturers b \<Longrightarrow>
   vst_manufacturers (snd (parse_als_file env file_path a))
     = vst_manufacturers (snd (parse_als_file env file_path b))"
  by (simp add: parse_als_file_def Let_def split: als_content.splits)

lemma parse_als_file_keeps:
  "map_of (vst_manufacturers a) vst = Some m \<Longrightarrow>
   map_of (vst_manufacturers (snd (parse_als_file env file_path a))) vst = Some m"
  by (simp add: parse_als_file_def Let_def commit_keeps split: als_content.splits)

lemma parse_als_file_unreadable:
  "\<not> readable env file_path \<Longrightarrow> snd (parse_als_file env file_path a) = a"
  by (simp add: readable_def parse_als_file_def split: als_content.splits)

lemma found_in_unreadable: "\<not> readable env file_path \<Longrightarrow> found_in env file_path = []"
  by (simp add: readable_def found_in_def parse_als_file_def list_set_Nil split: als_content.splits)

lemma parse_error_readable: "readable env file_path \<Longrightarrow> parse_error env file_path = None"
  by (simp add: readable_def parse_error_def parse_als_file_def Let_def split: als_content.splits)

lemma count_of_increment:
  "count_of (increment vst usage) v = count_of usage v + (if v = vst then 1 else 0)"
  by (simp add: increment_def count_of_def update_conv')

lemma count_of_fold_increment:
  "count_of (fold increment vsts usage) v = count_of usage v + count_list vsts v"
  by (induction vsts arbitrary: usage) (auto simp: count_of_increment)

lemma count_list_distinct: "distinct xs \<Longrightarrow> count_list xs x = (if x \<in> set xs then 1 else 0)"
  by (induction xs) auto

lemma keys_fold_increment:
  "fst ` set (fold increment vsts usage) = fst ` set usage \<union> set vsts"
  by (induction vsts arbitrary: usage) (auto simp: increment_def dom_update)

lemma process_file_cases:
  "process_file env file_path a =
     (let a2 = snd (parse_als_file env file_path (a\<lparr>current_file := os_path_basename env file_path\<rparr>))
      in case parse_error env file_path of
           Some e \<Rightarrow> (Some e, a2)
         | None \<Rightarrow>
             (None,
              (if found_in env file_path \<noteq> [] then
                 a2\<lparr>project_vsts := AList.update file_path (found_in env file_path) (project_vsts a2),
                    vst_usage := fold increment (found_in env file_path) (vst_usage a2)\<rparr>
               else a2)
              \<lparr>processed_files :=
                  processed_files
                    (if found_in env file_path \<noteq> [] then
                       a2\<lparr>project_vsts := AList.update file_path (found_in env file_path) (project_vsts a2),
                          vst_usage := fold increment (found_in env file_path) (vst_usage a2)\<rparr>
                     else a2) + 1\<rparr>))"
proof -
  let ?a1 = "a\<lparr>current_file := os_path_basename env file_path\<rparr>"
  obtain r a2 where pr: "parse_als_file env file_path ?a1 = (r, a2)"
    by (cases "parse_als_file env file_path ?a1")
  have r: "r = (case parse_error env file_path of None \<Rightarrow> Inr (found_in env file_path) | Some e \<Rightarrow> Inl e)"
    using fst_parse_als_file [of env file_path ?a1] pr by simp
  show ?thesis
    unfolding process_file_def Let_def pr
    by (simp add: r split: option.splits)
qed

lemma fst_process_file: "fst (process_file env file_path a) = parse_error env file_path"
  by (simp add: process_file_cases Let_def split: option.splits)

lemma process_file_usage:
  "vst_usage (snd (process_file env file_path a))
     = fold increment (found_in env file_path) (vst_usage a)"
  by (auto simp: process_file_cases Let_def parse_als_file_fields found_in_raised
      split: option.splits)

lemma process_file_projects:
  "project_vsts (snd (process_file env file_path a)) =
     (if found_in env file_path \<noteq> []
      then AList.update file_path (found_in env file_path) (project_vsts a)
      else project_vsts a)"
  by (auto simp: process_file_cases Let_def parse_als_file_fields found_in_raised
      split: option.splits)

lemma process_file_manufacturers:
  "vst_manufacturers (snd (process_file env file_path a)) =
     vst_manufacturers (snd (parse_als_file env file_path a))"
proof -
  have "vst_manufacturers
          (snd (parse_als_file env file_path (a\<lparr>current_file := os_path_basename env file_path\<rparr>)))
      = vst_manufacturers (snd (parse_als_file env file_path a))"
    by (rule parse_als_file_manufacturers_cong) simp
  then show ?thesis
    by (auto simp: process_file_cases Let_def split: option.splits)
qed

text \<open>
  Claim C1. The list returned by \<open>parse_als_file\<close> has no duplicates, and processing
  one file (one pass of the loop of \<open>scan_directory\<close>) raises the Usage Counter of every
  reference in that list by exactly 1 and leaves every other count as it was, however
  often the reference occurs in the file. When the call raises instead of returning a
  list, no count changes.
\<close>

theorem file_counts_once:
  "(\<forall>vsts. fst (parse_als_file env file_path a) = Inr vsts \<longrightarrow> distinct vsts)
   \<and> (\<forall>vst. count_of (vst_usage (snd (process_file env file_path a))) vst =
          count_of (vst_usage a) vst
          + (case fst (parse_als_file env file_path a) of
               Inr vsts \<Rightarrow> if vst \<in> set vsts then 1 else 0
             | Inl e \<Rightarrow> 0))"
  using distinct_found_in [of env file_path]
  by (auto simp: fst_parse_als_file process_file_usage count_of_fold_increment
      count_list_distinct found_in_raised split: option.splits)

subsection \<open>The scan loop\<close>

lemma scan_directory_scan_files:
  "scan_directory env directory a =
     scan_files env (find_als_files env directory)
       (a\<lparr>vst_usage := [], project_vsts := [], processed_files := 0,
          total_files := length (find_als_files env directory)\<rparr>)"
  by (simp add: scan_directory_def Let_def)

lemma scan_files_Cons:
  "scan_files env (file_path # rest) a =
     (case parse_error env file_path of
        Some e \<Rightarrow> (Some e, snd (process_file env file_path a))
      | None \<Rightarrow> scan_files env rest (snd (process_file env file_path a)))"
proof -
  obtain r a' where pf: "process_file env file_path a = (r, a')"
    by (cases "process_file env file_path a")
  then have "r = parse_error env file_path"
    using fst_process_file [of env file_path a] by simp
  with pf show ?thesis by (simp split: option.splits)
qed

lemma registry_distinct_process_file:
  "registry_distinct a \<Longrightarrow> registry_distinct (snd (process_file env file_path a))"
  unfolding registry_distinct_def process_file_projects
  using distinct_found_in [of env file_path]
  by (auto dest!: set_update_cases)

lemma registry_distinct_scan_files:
  "registry_distinct a \<Longrightarrow> registry_distinct (snd (scan_files env files a))"
proof (induction files arbitrary: a)
  case Nil
  then show ?case by simp
next
  case (Cons f fs)
  have "registry_distinct (snd (process_file env f a))"
    using Cons.prems by (rule registry_distinct_process_file)
  then show ?case
    unfolding scan_files_Cons by (auto split: option.splits intro: Cons.IH)
qed

text \<open>
  Claim C9. After \<open>scan_directory\<close>, every plugin list in the Project Registry is free of
  duplicates.
\<close>

theorem registry_lists_distinct:
  "\<forall>(file_path, vsts) \<in> set (project_vsts (snd (scan_directory env directory a))). distinct vsts"
proof -
  have "registry_distinct (snd (scan_directory env directory a))"
    unfolding scan_directory_scan_files
    by (rule registry_distinct_scan_files) (simp add: registry_distinct_def)
  then show ?thesis by (simp add: registry_distinct_def)
qed

lemma fold_parse_keeps:
  "map_of (vst_manufacturers a) vst = Some m \<Longrightarrow>
   map_of (vst_manufacturers (fold (\<lambda>file_path b. snd (parse_als_file env file_path b)) files a)) vst = Some m"
  by (induction files arbitrary: a) (auto simp: parse_als_file_keeps)

text \<open>
  Claim C2. A manufacturer recorded for a reference stays: one call of \<open>parse_als_file\<close>
  on any file, and any sequence of such calls on any files, leave the value as it was.
\<close>

theorem manufacturer_first_writer_wins:
  assumes "map_of (vst_manufacturers a) vst = Some m"
  shows "map_of (vst_manufacturers (snd (parse_als_file env file_path a))) vst = Some m
    \<and> map_of (vst_manufacturers
          (fold (\<lambda>file_path b. snd (parse_als_file env file_path b)) files a)) vst = Some m"
proof (intro conjI)
  show "map_of (vst_manufacturers (snd (parse_als_file env file_path a))) vst = Some m"
    using assms by (rule parse_als_file_keeps)
  show "map_of (vst_manufacturers
          (fold (\<lambda>file_path b. snd (parse_als_file env file_path b)) files a)) vst = Some m"
    using assms by (rule fold_parse_keeps)
qed

lemma usage_matches_registry_process_file:
  assumes "usage_matches_registry a" and "map_of (project_vsts a) file_path = None"
  shows "usage_matches_registry (snd (process_file env file_path a))"
proof (cases "found_in env file_path = []")
  case True
  with assms(1) show ?thesis
    by (simp add: usage_matches_registry_def process_file_usage process_file_projects)
next
  case False
  have reg: "project_vsts (snd (process_file env file_path a))
      = project_vsts a @ [(file_path, found_in env file_path)]"
    using False assms(2) by (simp add: process_file_projects update_new_key)
  show ?thesis
    unfolding usage_matches_registry_def reg process_file_usage
    using assms(1) distinct_found_in [of env file_path]
    by (auto simp: usage_matches_registry_def count_of_fold_increment count_list_distinct
        keys_fold_increment)
qed

lemma registry_keys_process_file:
  "fst ` set (project_vsts (snd (process_file env file_path a)))
     \<subseteq> insert file_path (fst ` set (project_vsts a))"
  by (auto simp: process_file_projects dom_update)

lemma usage_matches_registry_scan_files:
  assumes "distinct files" and "fst ` set (project_vsts a) \<inter> set files = {}"
    and "usage_matches_registry a"
  shows "usage_matches_registry (snd (scan_files env files a))"
  using assms
proof (induction files arbitrary: a)
  case Nil
  then show ?case by simp
next
  case (Cons f fs)
  have "f \<notin> fst ` set (project_vsts a)"
    using Cons.prems(2) by auto
  then have new: "map_of (project_vsts a) f = None"
    by (simp add: map_of_eq_None_iff)
  have step: "usage_matches_registry (snd (process_file env f a))"
    using Cons.prems(3) new by (rule usage_matches_registry_process_file)
  have "fst ` set (project_vsts (snd (process_file env f a))) \<inter> set fs = {}"
    using registry_keys_process_file [of env f a] Cons.prems(1,2) by auto
  with Cons.prems(1) step
  have "usage_matches_registry (snd (scan_files env fs (snd (process_file env f a))))"
    by (intro Cons.IH) auto
  with step show ?case
    unfolding scan_files_Cons by (simp split: option.splits)
qed

text \<open>
  Claim C10. When the discovered paths are pairwise distinct (each file of a directory
  tree has its own path), after \<open>scan_directory\<close> the count of every reference is the
  number of registry entries whose list contains it, and the counted references are
  exactly the references in the registry lists. This holds of the auditor whether the
  scan returned or was ended by an exception.
\<close>

theorem usage_counter_consistent_with_registry:
  assumes "distinct (find_als_files env directory)"
  shows "(\<forall>vst. count_of (vst_usage (snd (scan_directory env directory a))) vst
            = length (filter (\<lambda>(file_path, vsts). vst \<in> set vsts)
                        (project_vsts (snd (scan_directory env directory a)))))
     \<and> fst ` set (vst_usage (snd (scan_directory env directory a)))
         = (\<Union>(file_path, vsts) \<in> set (project_vsts (snd (scan_directory env directory a))). set vsts)"
proof -
  have "usage_matches_registry (snd (scan_directory env directory a))"
    unfolding scan_directory_scan_files
    by (rule usage_matches_registry_scan_files)
       (simp_all add: assms usage_matches_registry_def count_of_def)
  then show ?thesis by (simp add: usage_matches_registry_def)
qed

subsection \<open>Unreadable files\<close>

lemma walk_files_parts: "walk_files env root entries = als_here env root entries @ als_below env root entries"
  by (simp add: walk_files.simps [of env root entries] als_here_def als_below_def)

lemma als_here_Cons:
  "als_here env root (entry # entries) =
     (case entry of
        File name \<Rightarrow> if suffix ''.als'' (py_lower name) then [os_path_join env root name] else []
      | _ \<Rightarrow> [])
     @ als_here env root entries"
  by (simp add: als_here_def split: node.splits)

lemma als_below_Cons:
  "als_below env root (entry # entries) =
     (case entry of
        Dir d sub \<Rightarrow> walk_files env (os_path_join env root d) sub
      | _ \<Rightarrow> [])
     @ als_below env root entries"
  by (simp add: als_below_def)

lemma als_here_keep_readable:
  "als_here env root (keep_readable env root entries)
     = filter (readable env) (als_here env root entries)"
proof (induction entries)
  case Nil
  show ?case by (simp add: als_here_def)
next
  case (Cons entry entries)
  then show ?case
    by (cases entry) (simp_all add: als_here_Cons)
qed

lemma als_below_keep_readable:
  assumes "\<And>d sub. Dir d sub \<in> set entries \<Longrightarrow>
      walk_files env (os_path_join env root d) (keep_readable env (os_path_join env root d) sub)
        = filter (readable env) (walk_files env (os_path_join env root d) sub)"
  shows "als_below env root (keep_readable env root entries)
     = filter (readable env) (als_below env root entries)"
  using assms
proof (induction entries)
  case Nil
  show ?case by (simp add: als_below_def)
next
  case (Cons entry entries)
  have rest: "als_below env root (keep_readable env root entries)
     = filter (readable env) (als_below env root entries)"
    by (rule Cons.IH) (simp add: Cons.prems)
  show ?case
  proof (cases entry)
    case (Dir d sub)
    then have "walk_files env (os_path_join env root d) (keep_readable env (os_path_join env root d) sub)
        = filter (readable env) (walk_files env (os_path_join env root d) sub)"
      using Cons.prems by simp
    with Dir rest show ?thesis
      by (simp add: als_below_Cons)
  next
    case (File name)
    with rest show ?thesis
      by (simp add: als_below_Cons)
  next
    case (Denied d)
    with rest show ?thesis
      by (simp add: als_below_Cons)
  qed
qed

lemma walk_files_keep_readable:
  "walk_files env root (keep_readable env root entries)
     = filter (readable env) (walk_files env root entries)"
proof (induction env root entries rule: walk_files.induct)
  case (1 env root entries)
  have "als_below env root (keep_readable env root entries)
     = filter (readable env) (als_below env root entries)"
  proof (rule als_below_keep_readable)
    fix d sub
    assume "Dir d sub \<in> set entries"
    then show "walk_files env (os_path_join env root d) (keep_readable env (os_path_join env root d) sub)
        = filter (readable env) (walk_files env (os_path_join env root d) sub)"
      by (rule "1.IH") (rule refl)
  qed
  then show ?case
    unfolding walk_files_parts [of env root "keep_readable env root entries"]
      walk_files_parts [of env root entries]
    by (simp only: als_here_keep_readable filter_append)
qed

lemma find_als_files_without_unreadable:
  "find_als_files env (without_unreadable env directory)
     = filter (readable env) (find_als_files env directory)"
  by (cases directory) (simp_all add: find_als_files_def without_unreadable_def walk_files_keep_readable)

lemma same_results_process_file:
  assumes "same_results a b"
  shows "same_results (snd (process_file env file_path a)) (snd (process_file env file_path b))"
proof -
  have "vst_manufacturers (snd (parse_als_file env file_path a))
      = vst_manufacturers (snd (parse_als_file env file_path b))"
    using assms by (intro parse_als_file_manufacturers_cong) (simp add: same_results_def)
  then show ?thesis
    using assms
    by (simp add: same_results_def process_file_usage process_file_projects process_file_manufacturers)
qed

lemma same_results_unreadable:
  "\<not> readable env file_path \<Longrightarrow> same_results (snd (process_file env file_path a)) a"
  by (simp add: same_results_def process_file_usage process_file_projects process_file_manufacturers
      found_in_unreadable parse_als_file_unreadable)

lemma same_results_trans: "same_results a b \<Longrightarrow> same_results b c \<Longrightarrow> same_results a c"
  by (simp add: same_results_def)

lemma same_results_scan_files:
  assumes "\<forall>p \<in> set files. parse_error env p = None" and "same_results a b"
  shows "fst (scan_files env files a) = None
    \<and> fst (scan_files env (filter (readable env) files) b) = None
    \<and> same_results (snd (scan_files env files a))
         (snd (scan_files env (filter (readable env) files) b))"
  using assms
proof (induction files arbitrary: a b)
  case Nil
  then show ?case by simp
next
  case (Cons f fs)
  have ok: "parse_error env f = None" and rest: "\<forall>p \<in> set fs. parse_error env p = None"
    using Cons.prems(1) by simp_all
  show ?case
  proof (cases "readable env f")
    case True
    have "same_results (snd (process_file env f a)) (snd (process_file env f b))"
      using Cons.prems(2) by (rule same_results_process_file)
    with rest show ?thesis
      using True ok by (simp add: scan_files_Cons Cons.IH del: scan_files.simps)
  next
    case False
    then have "same_results (snd (process_file env f a)) a" by (rule same_results_unreadable)
    then have "same_results (snd (process_file env f a)) b"
      using Cons.prems(2) by (rule same_results_trans)
    with rest show ?thesis
      using False ok by (simp add: scan_files_Cons Cons.IH del: scan_files.simps)
  qed
qed

text \<open>
  As long as every message of the handler can be printed, a file that cannot be opened,
  unzipped or parsed contributes nothing: the scan returns, with the same Usage
  Counter, Project Registry and Manufacturer Mapping as the scan of the tree with those
  files removed.
\<close>

lemma printed_failures_contribute_nothing:
  assumes "\<forall>p \<in> set (find_als_files env directory). parse_error env p = None"
  shows "fst (scan_directory env directory a) = None
   \<and> vst_usage (snd (scan_directory env directory a))
       = vst_usage (snd (scan_directory env (without_unreadable env directory) a))
   \<and> project_vsts (snd (scan_directory env directory a))
       = project_vsts (snd (scan_directory env (without_unreadable env directory) a))
   \<and> vst_manufacturers (snd (scan_directory env directory a))
       = vst_manufacturers (snd (scan_directory env (without_unreadable env directory) a))"
proof -
  have "fst (scan_directory env directory a) = None
    \<and> same_results (snd (scan_directory env directory a))
          (snd (scan_directory env (without_unreadable env directory) a))"
    unfolding scan_directory_scan_files find_als_files_without_unreadable
    using same_results_scan_files [OF assms, where a = "a\<lparr>vst_usage := [], project_vsts := [], processed_files := 0,
          total_files := length (find_als_files env directory)\<rparr>"
        and b = "a\<lparr>vst_usage := [], project_vsts := [], processed_files := 0,
          total_files := length (filter (readable env) (find_als_files env directory))\<rparr>"]
    by (simp add: same_results_def)
  then show ?thesis
    by (simp add: same_results_def)
qed

subsection \<open>Distinct paths\<close>

text \<open>
  With the POSIX \<open>os.path.join\<close>, the paths \<open>find_als_files\<close> collects from a well-formed
  tree are pairwise distinct.
\<close>

lemma posix_join_ok: "ok_name n \<Longrightarrow> posix_join root n = dir_prefix root @ n"
  by (cases n) (auto simp: posix_join_def dir_prefix_def ok_name_def)

lemma dir_prefix_sub: "ok_name d \<Longrightarrow> dir_prefix (dir_prefix root @ d) = dir_prefix root @ d @ ''/''"
proof -
  assume ok: "ok_name d"
  then have "d \<noteq> []" by (simp add: ok_name_def)
  then obtain ds c where d: "d = ds @ [c]" by (metis rev_exhaust)
  with ok have "c \<noteq> CHR ''/''" by (auto simp: ok_name_def)
  with d show ?thesis by (simp add: dir_prefix_def suffix_def)
qed

lemma well_formed_names: "well_formed entries \<Longrightarrow> e \<in> set entries \<Longrightarrow> ok_name (node_name e)"
  by (induction entries rule: well_formed.induct) auto

lemma rel_here_Cons:
  "rel_here (entry # entries) =
     (case entry of File name \<Rightarrow> if suffix ''.als'' (py_lower name) then [name] else [] | _ \<Rightarrow> [])
     @ rel_here entries"
  by (simp add: rel_here_def split: node.splits)

lemma rel_here_subset: "set (rel_here entries) \<subseteq> {n. File n \<in> set entries}"
  by (induction entries) (auto simp: rel_here_Cons rel_here_def split: node.splits if_splits)

lemma als_here_posix:
  assumes "os_path_join env = posix_join" and "well_formed entries"
  shows "als_here env root entries = map (\<lambda>r. dir_prefix root @ r) (rel_here entries)"
  using assms(2)
proof (induction entries rule: well_formed.induct)
  case 1
  show ?case by (simp add: als_here_def rel_here_def)
next
  case (2 n entries)
  then show ?case by (simp add: als_here_Cons rel_here_Cons assms(1) posix_join_ok)
next
  case (3 d sub entries)
  then show ?case by (simp add: als_here_Cons rel_here_Cons)
next
  case (4 d entries)
  then show ?case by (simp add: als_here_Cons rel_here_Cons)
qed

lemma als_below_posix:
  assumes "os_path_join env = posix_join"
  shows "well_formed entries \<Longrightarrow>
     als_below env root entries = map (\<lambda>r. dir_prefix root @ r) (rel_below entries)"
proof (induction entries arbitrary: root rule: well_formed.induct)
  case 1
  show ?case by (simp add: als_below_def)
next
  case (2 n entries)
  then show ?case by (simp add: als_below_Cons)
next
  case (3 d sub entries)
  let ?sub = "os_path_join env root d"
  have ok: "ok_name d" and wsub: "well_formed sub" and wrest: "well_formed entries"
    using "3.prems" by simp_all
  have root': "?sub = dir_prefix root @ d"
    using ok by (simp add: assms posix_join_ok)
  have "walk_files env ?sub sub = als_here env ?sub sub @ als_below env ?sub sub"
    by (rule walk_files_parts)
  also have "\<dots> = map (\<lambda>r. dir_prefix ?sub @ r) (rel_here sub @ rel_below sub)"
    using wsub by (simp add: als_here_posix [OF assms] "3.IH"(1))
  also have "\<dots> = map (\<lambda>r. dir_prefix root @ d @ ''/'' @ r) (rel_here sub @ rel_below sub)"
    using ok by (simp add: root' dir_prefix_sub)
  finally have "walk_files env ?sub sub
      = map (\<lambda>r. dir_prefix root @ d @ ''/'' @ r) (rel_here sub @ rel_below sub)" .
  then show ?case
    using wrest by (simp add: als_below_Cons "3.IH"(2))
next
  case (4 d entries)
  then show ?case by (simp add: als_below_Cons)
qed

lemma rel_below_slash: "r \<in> set (rel_below entries) \<Longrightarrow> CHR ''/'' \<in> set r"
  by (induction entries rule: rel_below.induct) auto

lemma takeWhile_name: "ok_name d \<Longrightarrow> takeWhile (\<lambda>c. c \<noteq> CHR ''/'') (d @ ''/'' @ r) = d"
  by (auto simp: ok_name_def takeWhile_tail)

lemma rel_below_first:
  "well_formed entries \<Longrightarrow> r \<in> set (rel_below entries) \<Longrightarrow>
   takeWhile (\<lambda>c. c \<noteq> CHR ''/'') r \<in> node_name ` set entries"
proof (induction entries rule: well_formed.induct)
  case 1
  then show ?case by simp
next
  case (2 n entries)
  then show ?case by simp
next
  case (3 d sub entries)
  show ?case
  proof (cases "r \<in> set (rel_below entries)")
    case True
    with 3 show ?thesis by simp
  next
    case False
    with "3.prems" obtain r' where "r = d @ ''/'' @ r'" by auto
    moreover have "ok_name d" using "3.prems" by simp
    ultimately show ?thesis by (simp add: takeWhile_name del: append.simps)
  qed
next
  case (4 d entries)
  then show ?case by simp
qed

lemma rel_here_names:
  "r \<in> set (rel_here entries) \<Longrightarrow> r \<in> node_name ` set entries"
  using rel_here_subset [of entries] by force

lemma distinct_rel_here: "well_formed entries \<Longrightarrow> distinct (rel_here entries)"
proof (induction entries rule: well_formed.induct)
  case 1
  show ?case by (simp add: rel_here_def)
next
  case (2 n entries)
  then show ?case using rel_here_names [of n entries] by (auto simp: rel_here_Cons)
next
  case (3 d sub entries)
  then show ?case by (simp add: rel_here_Cons)
next
  case (4 d entries)
  then show ?case by (simp add: rel_here_Cons)
qed

lemma rel_here_below_disjoint:
  assumes "well_formed entries"
  shows "set (rel_here entries) \<inter> set (rel_below entries) = {}"
proof -
  have "CHR ''/'' \<notin> set r" if "r \<in> set (rel_here entries)" for r
  proof -
    from that obtain e where "e \<in> set entries" "r = node_name e"
      using rel_here_names by blast
    then show ?thesis using well_formed_names [OF assms] by (auto simp: ok_name_def)
  qed
  then show ?thesis using rel_below_slash by blast
qed

lemma distinct_rel_below: "well_formed entries \<Longrightarrow> distinct (rel_below entries)"
proof (induction entries rule: well_formed.induct)
  case 1
  show ?case by simp
next
  case (2 n entries)
  then show ?case by simp
next
  case (3 d sub entries)
  have ok: "ok_name d" and fresh: "d \<notin> node_name ` set entries"
    and wsub: "well_formed sub" and wrest: "well_formed entries"
    using "3.prems" by simp_all
  have "distinct (rel_here sub @ rel_below sub)"
    using wsub "3.IH"(1) distinct_rel_here rel_here_below_disjoint by simp
  then have one: "distinct (map (\<lambda>r. d @ ''/'' @ r) (rel_here sub @ rel_below sub))"
    by (simp add: distinct_map inj_on_def del: map_append)
  have two: "distinct (rel_below entries)"
    using wrest by (rule "3.IH"(2))
  have "r \<notin> set (rel_below entries)" if mem: "r \<in> set (map (\<lambda>r. d @ ''/'' @ r) (rel_here sub @ rel_below sub))" for r
  proof
    assume "r \<in> set (rel_below entries)"
    then have "takeWhile (\<lambda>c. c \<noteq> CHR ''/'') r \<in> node_name ` set entries"
      using wrest rel_below_first by blast
    moreover obtain r' where "r = d @ ''/'' @ r'" using mem by auto
    ultimately show False using ok fresh by (simp add: takeWhile_name del: append.simps)
  qed
  with one two show ?case by (auto simp del: map_append)
next
  case (4 d entries)
  then show ?case by simp
qed

lemma posix_paths_distinct:
  assumes "os_path_join env = posix_join" and "well_formed entries"
  shows "distinct (find_als_files env (Dir root entries))"
proof -
  have "find_als_files env (Dir root entries)
      = map (\<lambda>r. dir_prefix root @ r) (rel_here entries @ rel_below entries)"
    using assms
    by (simp add: find_als_files_def walk_files_parts als_here_posix als_below_posix)
  moreover have "distinct (rel_here entries @ rel_below entries)"
    using assms(2) distinct_rel_here distinct_rel_below rel_here_below_disjoint by simp
  ultimately show ?thesis
    by (simp add: distinct_map inj_on_def del: map_append)
qed

subsection \<open>The browser path\<close>

lemma associate_map_of:
  "map_of (associate manufacturer plugin_name vsts lm) vst =
     (if vst \<in> set vsts \<and> name_matches plugin_name vst then Some manufacturer else map_of lm vst)"
  by (induction vsts arbitrary: lm) (auto simp: update_conv')

lemma sep_in_split: "2 \<le> length (py_split sep s) \<Longrightarrow> sep \<in> set s"
  using py_split_without_sep [of sep s] by fastforce

lemma sublist_single: "sublist [c] s \<longleftrightarrow> c \<in> set s"
proof
  assume "sublist [c] s"
  then show "c \<in> set s" by (auto simp: sublist_def)
next
  assume "c \<in> set s"
  then obtain pre suf where "s = pre @ c # suf" by (auto simp: in_set_conv_decomp)
  then show "sublist [c] s" by (auto simp: sublist_def)
qed

lemma child_step_local: "local_manufacturers (child_step child st) = local_manufacturers st"
  by (simp add: child_step_def add_found_def Let_def split: option.splits)

lemma fold_child_step_local:
  "local_manufacturers (fold child_step cs st) = local_manufacturers st"
  by (induction cs arbitrary: st) (simp_all add: child_step_local)

lemma plugin_info_step_local:
  "local_manufacturers (plugin_info_step elem st) = local_manufacturers st"
  by (simp add: plugin_info_step_def fold_child_step_local add_found_def Let_def split: option.splits)

lemma browser_step_found: "vsts_found (browser_step elem st) = vsts_found st"
  by (simp add: browser_step_def Let_def split: option.splits)

lemma browser_step_map_of:
  assumes "tag elem = ''BrowserContentPath''"
    and "find (\<lambda>c. tag c = ''Value'') (children elem) = Some value_elem"
    and "elem_text value_elem = Some browser_path"
    and "sublist ''Plugins#VST'' browser_path"
    and "4 \<le> length (py_split (CHR '':'') browser_path)"
  shows "local_manufacturers (browser_step elem st) =
           associate (py_replace ''%20'' '' '' (py_split (CHR '':'') browser_path ! 2))
             (py_replace ''%20'' '' '' (py_split (CHR '':'') browser_path ! 3))
             (vsts_found st) (local_manufacturers st)"
proof -
  have ne: "browser_path \<noteq> []"
    using assms(4) by auto
  have "CHR '':'' \<in> set browser_path"
    using assms(5) by (intro sep_in_split) simp
  then have colon: "sublist '':'' browser_path"
    by (simp add: sublist_single)
  show ?thesis
    using assms ne colon by (simp add: browser_step_def Let_def)
qed

text \<open>
  Claim C7. For a \<open>BrowserContentPath\<close> element whose first \<open>Value\<close> child holds a text
  that contains \<open>Plugins#VST\<close> and has at least 4 fields between colons, one pass of the
  element loop leaves the file-local manufacturer table as follows: every reference that
  was in \<open>vsts_found\<close> after the text and attribute checks of this element, and whose
  lower-cased name contains the lower-cased decoded plugin name or is contained in it,
  maps to the decoded manufacturer (field 2 with \<open>%20\<close> turned into a space), whatever
  the table held for it before; every other entry is as it was.
\<close>

theorem browser_path_overrides:
  assumes "tag elem = ''BrowserContentPath''"
    and "find (\<lambda>c. tag c = ''Value'') (children elem) = Some value_elem"
    and "elem_text value_elem = Some browser_path"
    and "sublist ''Plugins#VST'' browser_path"
    and "parts = py_split (CHR '':'') browser_path"
    and "4 \<le> length parts"
    and "manufacturer = py_replace ''%20'' '' '' (parts ! 2)"
    and "plugin_name = py_replace ''%20'' '' '' (parts ! 3)"
    and "before = attrib_step env elem (text_step env elem st)"
  shows "map_of (local_manufacturers (elem_step env elem st)) vst =
     (if vst \<in> set (vsts_found before)
         \<and> (sublist (py_lower plugin_name) (py_lower vst) \<or> sublist (py_lower vst) (py_lower plugin_name))
      then Some manufacturer
      else map_of (local_manufacturers before) vst)"
proof -
  have "local_manufacturers (elem_step env elem st) = local_manufacturers (browser_step elem before)"
    by (simp add: elem_step_def plugin_info_step_local assms(9))
  also have "\<dots> = associate manufacturer plugin_name (vsts_found before) (local_manufacturers before)"
    using assms(1-4,6) unfolding assms(5,7,8) by (rule browser_step_map_of)
  finally show ?thesis
    by (simp add: associate_map_of name_matches_def)
qed

subsection \<open>The example folder\<close>

text \<open>The first project names \<open>Widget.dll\<close> twice and counts it once.\<close>

theorem file_counts_once_witness:
  "fst (parse_als_file example_env ''Music/first.als'' init_auditor) = Inr [''Serum'', ''Widget.dll'']
   \<and> distinct [''Serum'', ''Widget.dll'']
   \<and> count_of (vst_usage (snd (process_file example_env ''Music/first.als'' init_auditor)))
        ''Widget.dll'' = 1"
proof -
  have "fst (parse_als_file example_env ''Music/first.als'' init_auditor) = Inr [''Serum'', ''Widget.dll'']"
    by code_simp
  moreover have "count_of (vst_usage init_auditor) ''Widget.dll'' = 0"
    by code_simp
  ultimately show ?thesis
    using file_counts_once [of example_env "''Music/first.als''" init_auditor] by simp
qed

text \<open>The registry entry of the first project.\<close>

theorem registry_lists_distinct_witness:
  "(''Music/first.als'', [''Serum'', ''Widget.dll''])
      \<in> set (project_vsts (snd (scan_directory example_env example_tree init_auditor)))
   \<and> distinct [''Serum'', ''Widget.dll'']"
proof -
  have "(''Music/first.als'', [''Serum'', ''Widget.dll''])
      \<in> set (project_vsts (snd (scan_directory example_env example_tree init_auditor)))"
    by code_simp
  then show ?thesis
    using registry_lists_distinct [of example_env example_tree init_auditor] by blast
qed

text \<open>The vendor found in the first project survives the second project.\<close>

theorem manufacturer_first_writer_wins_witness:
  "map_of (vst_manufacturers (snd (parse_als_file example_env ''Music/first.als'' init_auditor)))
      ''Widget.dll'' = Some ''CompanyX''
   \<and> map_of (vst_manufacturers
        (snd (parse_als_file example_env ''Music/live/second.ALS''
           (snd (parse_als_file example_env ''Music/first.als'' init_auditor)))))
      ''Widget.dll'' = Some ''CompanyX''"
proof -
  have h: "map_of (vst_manufacturers (snd (parse_als_file example_env ''Music/first.als'' init_auditor)))
      ''Widget.dll'' = Some ''CompanyX''"
    by code_simp
  show ?thesis
    using h manufacturer_first_writer_wins [OF h, of example_env "''Music/live/second.ALS''" "[]"]
    by blast
qed

text \<open>Two registry entries list \<open>Widget.dll\<close>, and its count is 2.\<close>

theorem usage_counter_consistent_with_registry_witness:
  "distinct (find_als_files example_env example_tree)
   \<and> count_of (vst_usage (snd (scan_directory example_env example_tree init_auditor))) ''Widget.dll'' = 2
   \<and> length (filter (\<lambda>(file_path, vsts). ''Widget.dll'' \<in> set vsts)
        (project_vsts (snd (scan_directory example_env example_tree init_auditor)))) = 2"
proof -
  have d: "distinct (find_als_files example_env example_tree)"
    by code_simp
  have n: "length (filter (\<lambda>(file_path, vsts). ''Widget.dll'' \<in> set vsts)
        (project_vsts (snd (scan_directory example_env example_tree init_auditor)))) = 2"
    by code_simp
  show ?thesis
    using d n usage_counter_consistent_with_registry [OF d, of init_auditor] by simp
qed

text \<open>The browser entry replaces the vendor taken from the path.\<close>

theorem browser_path_overrides_witness:
  "map_of (local_manufacturers
       (elem_step example_env browser_elem
          \<lparr>vsts_found = [''Widget.dll'', ''Serum''],
           local_manufacturers = [(''Widget.dll'', ''CompanyX'')]\<rparr>)) ''Widget.dll''
     = Some ''Widget Works''"
proof -
  let ?st = "\<lparr>vsts_found = [''Widget.dll'', ''Serum''],
           local_manufacturers = [(''Widget.dll'', ''CompanyX'')]\<rparr>"
  let ?path = "''query:Plugins#VST:Widget%20Works:Widget''"
  let ?child = "Element ''Value'' [] (Some ?path) []"
  have 1: "tag browser_elem = ''BrowserContentPath''" by code_simp
  have 2: "find (\<lambda>c. tag c = ''Value'') (children browser_elem) = Some ?child" by code_simp
  have 3: "elem_text ?child = Some ?path" by simp
  have 4: "sublist ''Plugins#VST'' ?path" by code_simp
  have 5: "[''query'', ''Plugins#VST'', ''Widget%20Works'', ''Widget''] = py_split (CHR '':'') ?path"
    by code_simp
  have 6: "4 \<le> length [''query'', ''Plugins#VST'', ''Widget%20Works'', ''Widget'']" by simp
  have 7: "''Widget Works'' = py_replace ''%20'' '' '' ([''query'', ''Plugins#VST'', ''Widget%20Works'', ''Widget''] ! 2)"
    by code_simp
  have 8: "''Widget'' = py_replace ''%20'' '' '' ([''query'', ''Plugins#VST'', ''Widget%20Works'', ''Widget''] ! 3)"
    by code_simp
  have 9: "?st = attrib_step example_env browser_elem (text_step example_env browser_elem ?st)"
    by code_simp
  have 10: "''Widget.dll'' \<in> set (vsts_found ?st) \<and>
      (sublist (py_lower ''Widget'') (py_lower ''Widget.dll'') \<or> sublist (py_lower ''Widget.dll'') (py_lower ''Widget''))"
    by code_simp
  show ?thesis
    using browser_path_overrides [OF 1 2 3 4 5 6 7 8 9, of "''Widget.dll''"] 10 by simp
qed

text \<open>
  Claim C3. \<open>scan_directory\<close> clears the Usage Counter, the Project Registry and the
  count of processed files, but not the Manufacturer Mapping: scanning a folder without
  project files from an auditor that already holds a manufacturer leaves the counter and
  the registry empty and the mapping as it was, not empty.
\<close>

theorem scan_directory_keeps_manufacturers:
  "find_als_files example_env (Dir ''Empty'' [File ''readme.txt'']) = []
   \<and> vst_usage (snd (scan_directory example_env (Dir ''Empty'' [File ''readme.txt'']) stale_auditor)) = []
   \<and> project_vsts (snd (scan_directory example_env (Dir ''Empty'' [File ''readme.txt'']) stale_auditor)) = []
   \<and> vst_manufacturers (snd (scan_directory example_env (Dir ''Empty'' [File ''readme.txt'']) stale_auditor))
       = [(''Old.dll'', ''Acme'')]"
  by code_simp

text \<open>
  What follows from it: the vendor a scan reports for a plugin depends on the scans made
  before with the same auditor.
\<close>

lemma stale_manufacturer_reported:
  "manufacturer_of (snd (scan_directory example_env example_tree init_auditor)) ''Widget.dll''
     = ''CompanyX''
   \<and> manufacturer_of
        (snd (scan_directory example_env example_tree
           (init_auditor\<lparr>vst_manufacturers := [(''Widget.dll'', ''Acme'')]\<rparr>))) ''Widget.dll''
       = ''Acme''"
  by code_simp

text \<open>
  The scan of the example folder from a fresh auditor: \<open>Widget.dll\<close> is counted twice,
  keeps the vendor of the first project, and the registry has two entries. The broken
  project is logged and adds nothing.
\<close>

lemma example_scan:
  "fst (scan_directory example_env example_tree init_auditor) = None
   \<and> vst_usage (snd (scan_directory example_env example_tree init_auditor))
     = [(''Serum'', 1), (''Widget.dll'', 2)]
   \<and> project_vsts (snd (scan_directory example_env example_tree init_auditor))
     = [(''Music/first.als'', [''Serum'', ''Widget.dll'']),
        (''Music/live/second.ALS'', [''Widget.dll''])]
   \<and> vst_manufacturers (snd (scan_directory example_env example_tree init_auditor))
     = [(''Widget.dll'', ''CompanyX''), (''Serum'', ''Unknown'')]"
  by code_simp

lemma example_tree_well_formed:
  "well_formed [File ''first.als'', File ''notes.txt'', File ''broken.als'',
        Dir ''live'' [File ''second.ALS''], Denied ''private'']"
  by code_simp

text \<open>
  Claim C4. A failure to open, unzip or parse a file is caught in \<open>parse_als_file\<close>, but
  the handler prints the path, and that \<open>print\<close> is not guarded. In a folder that lists
  a broken project with \<open>U+00F6\<close> in its name before a sound project, with an ASCII
  \<open>stdout\<close>, the \<open>print\<close> raises and ends the scan before the sound project is read:
  the Usage Counter and the Project Registry stay empty, while the scan of the sound
  project alone counts its two plugins. So the failure does abort the batch.
\<close>

theorem unprintable_failure_ends_scan:
  "fst (scan_directory ascii_env umlaut_tree init_auditor)
     = Some (PrintFailed (error_message (''Music/'' @ umlaut_name) ''Not a gzipped file''))
   \<and> vst_usage (snd (scan_directory ascii_env umlaut_tree init_auditor)) = []
   \<and> project_vsts (snd (scan_directory ascii_env umlaut_tree init_auditor)) = []
   \<and> without_unreadable ascii_env umlaut_tree = Dir ''Music'' [File ''first.als'']
   \<and> fst (scan_directory ascii_env (Dir ''Music'' [File ''first.als'']) init_auditor) = None
   \<and> vst_usage (snd (scan_directory ascii_env (Dir ''Music'' [File ''first.als'']) init_auditor))
       = [(''Serum'', 1), (''Widget.dll'', 1)]"
  by code_simp

text \<open>With a \<open>stdout\<close> that takes every character, the same folder is scanned to the end.\<close>

lemma printable_failure_example:
  "fst (scan_directory example_env umlaut_tree init_auditor) = None
   \<and> vst_usage (snd (scan_directory example_env umlaut_tree init_auditor))
       = [(''Serum'', 1), (''Widget.dll'', 1)]"
  by code_simp

subsection \<open>The report\<close>

lemma decimal_0: "decimal 0 = ''0''"
  by code_simp

text \<open>
  Claim C8, as the code has it. With an empty Usage Counter the report is the header
  section (title, rule, timestamp, the number of projects and \<open>0\<close> unique plugins)
  followed by the single line that no plugins were found; the other four sections are
  left out.
\<close>

theorem report_without_plugins:
  assumes "vst_usage a = []"
  shows "generate_report env now a =
     [u (''ABLETON VST AUDIT REPORT'' @ nl),
      u (replicate 50 (CHR ''='') @ nl),
      u (''Generated: '' @ now @ nl),
      u (''Total Projects Scanned: '' @ decimal (length (project_vsts a)) @ nl),
      u (''Total Unique VSTs Found: 0'' @ nl @ nl),
      u (''No VST plugins found in the scanned projects.'' @ nl)]"
  using assms by (simp add: generate_report_def header_def no_plugins_line_def decimal_0)

text \<open>The report of a fresh auditor.\<close>

theorem report_without_plugins_witness:
  "vst_usage init_auditor = []
   \<and> generate_report example_env ''2026-11-04 09:00:00'' init_auditor =
     [u (''ABLETON VST AUDIT REPORT'' @ nl),
      u (replicate 50 (CHR ''='') @ nl),
      u (''Generated: 2026-11-04 09:00:00'' @ nl),
      u (''Total Projects Scanned: 0'' @ nl),
      u (''Total Unique VSTs Found: 0'' @ nl @ nl),
      u (''No VST plugins found in the scanned projects.'' @ nl)]"
proof -
  have h: "vst_usage init_auditor = []"
    by (simp add: init_auditor_def)
  have "length (project_vsts init_auditor) = 0"
    by (simp add: init_auditor_def)
  then show ?thesis
    using h report_without_plugins [OF h, of example_env "''2026-11-04 09:00:00''"]
    by (simp add: decimal_0)
qed

text \<open>
  The report of a fresh auditor is not the single line: it has six parts and begins
  with the title.
\<close>

theorem empty_report_is_not_one_line:
  "vst_usage init_auditor = []
   \<and> generate_report example_env ''2026-11-04 09:00:00'' init_auditor \<noteq> [no_plugins_line]
   \<and> length (generate_report example_env ''2026-11-04 09:00:00'' init_auditor) = 6
   \<and> hd (generate_report example_env ''2026-11-04 09:00:00'' init_auditor)
       = u (''ABLETON VST AUDIT REPORT'' @ nl)"
  by (simp add: generate_report_def header_def init_auditor_def)

end
